theory Spec2Isabelle
  imports Complex_Main "HOL-Library.Sublist" "HOL-Library.AList" "HOL-Library.Log_Nat"
begin

section \<open>Python values shared by both notebooks\<close>

text \<open>
  Every exception the modelled code can raise is a value of \<open>error\<close>; a function that can
  raise returns \<open>error + 'a\<close> with \<open>Inl\<close> for the exception.
\<close>

datatype error =
    EOFError
  | ZeroDivisionError
  | OverflowError
  | FileExistsError
  | FileNotFoundError
  | NotADirectoryError
  | IsADirectoryError
  | IndexError
  | ValueError
  | OSError

text \<open>
  The global random generator of Python's \<open>random\<close> module is an explicit source of raw
  draws, passed in and returned. \<open>random.randint(a, b)\<close> is \<open>a + randbelow(b - a + 1)\<close>:
  one raw draw reduced to the \<open>b - a + 1\<close> values of the range, so that over a full period
  of raw draws every value of \<open>[a, b]\<close> comes up exactly once (the uniform distribution).
  The source calls it with constant, non-empty ranges only.
\<close>

type_synonym rng = "nat \<Rightarrow> nat"

definition randint :: "int \<Rightarrow> int \<Rightarrow> rng \<Rightarrow> int \<times> rng" where
  "randint a b g = (a + int (g 0 mod nat (b - a + 1)), \<lambda>k. g (Suc k))"

subsection \<open>True division\<close>

text \<open>
  Python's \<open>a / b\<close> on integers is the exact quotient rounded to the nearest double (ties to
  the even mantissa); it raises when \<open>b\<close> is zero and when the rounded value is beyond the
  doubles. A double is kept here as the rational number it denotes. \<open>floor_log2 x\<close> is the
  binary exponent of a positive \<open>x\<close>; a double has 53 mantissa bits above the exponent
  \<open>- 1074\<close> of the smallest subnormal. Python compares an integer with a float exactly.
\<close>

definition round_half_even :: "rat \<Rightarrow> int" where
  "round_half_even y =
     (let n = \<lfloor>y\<rfloor>; r = y - rat_of_int n
      in if r < 1 / 2 then n else if 1 / 2 < r then n + 1 else if even n then n else n + 1)"

definition floor_log2 :: "rat \<Rightarrow> int" where
  "floor_log2 x =
     (let d = bitlen (fst (quotient_of x)) - bitlen (snd (quotient_of x))
      in if 2 powi d \<le> x then d else d - 1)"

definition round_double :: "rat \<Rightarrow> rat" where
  "round_double x =
     (if x = 0 then 0
      else (let e = max (floor_log2 \<bar>x\<bar> - 52) (- 1074);
                m = round_half_even (\<bar>x\<bar> / 2 powi e)
            in sgn x * rat_of_int m * 2 powi e))"

definition py_truediv :: "int \<Rightarrow> int \<Rightarrow> error + rat" where
  "py_truediv a b =
     (if b = 0 then Inl ZeroDivisionError
      else (let r = round_double (rat_of_int a / rat_of_int b)
            in if 2 ^ 1024 \<le> \<bar>r\<bar> then Inl OverflowError else Inr r))"

section \<open>Transfer-learning notebook: the shape-image generator\<close>

subsection \<open>Rasters\<close>

text \<open>
  A PIL image is modelled at the level of the library calls that build it: its mode, its
  size (width, height), the colour it was created with and the drawing calls applied to it,
  in order. The library refuses sizes beyond its limits (a side of \<open>2 ^ 31\<close> pixels or more,
  or more pixels than memory holds); the model describes the calls for the sizes it takes.
\<close>

type_synonym colour = "int \<times> int \<times> int"
type_synonym point = "int \<times> int"

datatype draw_cmd =
    Ellipse point point colour
  | Rectangle point point colour
  | Polygon "point list" colour

record image =
  img_mode :: string
  img_size :: "nat \<times> nat"
  img_background :: colour
  img_drawn :: "draw_cmd list"

definition Image_new :: "string \<Rightarrow> nat \<times> nat \<Rightarrow> colour \<Rightarrow> image" where
  "Image_new m sz c = \<lparr>img_mode = m, img_size = sz, img_background = c, img_drawn = []\<rparr>"

definition draw_ellipse :: "point \<times> point \<Rightarrow> colour \<Rightarrow> image \<Rightarrow> image" where
  "draw_ellipse box col img = img\<lparr>img_drawn := img_drawn img @ [Ellipse (fst box) (snd box) col]\<rparr>"

definition draw_rectangle :: "point \<times> point \<Rightarrow> colour \<Rightarrow> image \<Rightarrow> image" where
  "draw_rectangle box col img =
     img\<lparr>img_drawn := img_drawn img @ [Rectangle (fst box) (snd box) col]\<rparr>"

definition draw_polygon :: "point list \<Rightarrow> colour \<Rightarrow> image \<Rightarrow> image" where
  "draw_polygon pts col img = img\<lparr>img_drawn := img_drawn img @ [Polygon pts col]\<rparr>"

text \<open>
  \<open>np.array(img)\<close> of an RGB image of size (width, height) is an array of shape
  (height, width, 3) holding the same pixels; the model keeps the record and reads the
  shape off it.
\<close>

definition array_shape :: "image \<Rightarrow> nat \<times> nat \<times> nat" where
  "array_shape img = (snd (img_size img), fst (img_size img), 3)"

text \<open>The coordinates and the fill colour a drawing call was given.\<close>

definition cmd_points :: "draw_cmd \<Rightarrow> point list" where
  "cmd_points c =
     (case c of Ellipse p q _ \<Rightarrow> [p, q] | Rectangle p q _ \<Rightarrow> [p, q] | Polygon ps _ \<Rightarrow> ps)"

definition cmd_fill :: "draw_cmd \<Rightarrow> colour" where
  "cmd_fill c = (case c of Ellipse _ _ col \<Rightarrow> col | Rectangle _ _ col \<Rightarrow> col | Polygon _ col \<Rightarrow> col)"

text \<open>
  What is known of the pixels. A drawing call paints inside the image only (what lies
  beyond its sides is clipped) and nowhere outside the box spanned by its points
  (\<open>in_box\<close>, sides included). A rectangle paints every pixel of its box. For an ellipse
  and a triangle the pixels near the outline are the rasteriser's choice: \<open>covers\<close> answers
  \<open>Some True\<close> for a pixel that lies inside by a pixel or more, \<open>Some False\<close> for one that
  lies outside by a pixel or more, and \<open>None\<close> in between, for corner points given out of
  order and for polygons that are not triangles. \<open>edge a b p\<close> is the cross product that
  tells on which side of the line from \<open>a\<close> to \<open>b\<close> the point \<open>p\<close> lies, and how far.
\<close>

definition in_box :: "point list \<Rightarrow> point \<Rightarrow> bool" where
  "in_box ps p \<longleftrightarrow>
     (\<exists>a\<in>set ps. fst a \<le> fst p) \<and> (\<exists>a\<in>set ps. fst p \<le> fst a) \<and>
     (\<exists>a\<in>set ps. snd a \<le> snd p) \<and> (\<exists>a\<in>set ps. snd p \<le> snd a)"

definition in_ellipse :: "point \<Rightarrow> point \<Rightarrow> int \<Rightarrow> point \<Rightarrow> bool" where
  "in_ellipse a b margin p =
     (let w = fst b - fst a + 2 * margin; h = snd b - snd a + 2 * margin;
          x = 2 * fst p - fst a - fst b; y = 2 * snd p - snd a - snd b
      in 0 < w \<and> 0 < h \<and> x * x * (h * h) + y * y * (w * w) \<le> w * w * (h * h))"

definition edge :: "point \<Rightarrow> point \<Rightarrow> point \<Rightarrow> int" where
  "edge a b p = (fst b - fst a) * (snd p - snd a) - (snd b - snd a) * (fst p - fst a)"

definition far_side :: "int \<Rightarrow> point \<Rightarrow> point \<Rightarrow> point \<Rightarrow> bool" where
  "far_side s a b p \<longleftrightarrow>
     0 < s * edge a b p \<and>
     (fst b - fst a) * (fst b - fst a) + (snd b - snd a) * (snd b - snd a)
       \<le> edge a b p * edge a b p"

fun covers :: "draw_cmd \<Rightarrow> point \<Rightarrow> bool option" where
  "covers (Rectangle a b col) p =
     (if fst a \<le> fst b \<and> snd a \<le> snd b then Some (in_box [a, b] p) else None)"
| "covers (Ellipse a b col) p =
     (if \<not> (fst a \<le> fst b \<and> snd a \<le> snd b) then None
      else if \<not> in_box [a, b] p then Some False
      else if in_ellipse a b (- 1) p then Some True
      else if in_ellipse a b 1 p then None
      else Some False)"
| "covers (Polygon ps col) p =
     (if \<not> in_box ps p then Some False
      else (case ps of
              [a, b, c] \<Rightarrow>
                (let s = sgn (edge a b c)
                 in if s = 0 then None
                    else if far_side s a b p \<and> far_side s b c p \<and> far_side s c a p then Some True
                    else if far_side (- s) a b p \<or> far_side (- s) b c p \<or> far_side (- s) c a p
                      then Some False
                    else None)
            | _ \<Rightarrow> None))"

text \<open>
  The colour of the pixel in column \<open>x\<close> and row \<open>y\<close> after the drawing calls, \<open>None\<close> when it
  depends on the rasteriser; and the rows of the raster, as \<open>np.array\<close> returns them.
\<close>

definition paint :: "point \<Rightarrow> colour option \<Rightarrow> draw_cmd \<Rightarrow> colour option" where
  "paint p cur c =
     (case covers c p of
        None \<Rightarrow> None
      | Some hit \<Rightarrow> if hit then Some (cmd_fill c) else cur)"

definition pixel :: "image \<Rightarrow> nat \<times> nat \<Rightarrow> colour option" where
  "pixel img xy =
     foldl (paint (int (fst xy), int (snd xy))) (Some (img_background img)) (img_drawn img)"

definition raster_of :: "image \<Rightarrow> colour option list list" where
  "raster_of img =
     map (\<lambda>y. map (\<lambda>x. pixel img (x, y)) [0..<fst (img_size img)]) [0..<snd (img_size img)]"

subsection \<open>\<open>create_image\<close>\<close>

definition create_image :: "nat \<times> nat \<Rightarrow> string \<Rightarrow> rng \<Rightarrow> image \<times> rng" where
  "create_image sz shape g0 =
     (let (xy1, g1) = randint 10 40 g0;
          (xy2, g2) = randint 60 100 g1;
          (c1, g3) = randint 0 200 g2;
          (c2, g4) = randint 0 200 g3;
          (c3, g5) = randint 0 200 g4;
          col = (c1, c2, c3);
          img = Image_new ''RGB'' sz (255, 255, 255);
          img' = (if shape = ''circle'' then draw_ellipse ((xy1, xy1), (xy2, xy2)) col img
                  else if shape = ''square'' then draw_rectangle ((xy1, xy1), (xy2, xy2)) col img
                  else draw_polygon [(xy1, xy1), (xy2, xy2), (xy2, xy1)] col img)
      in (img', g5))"

subsection \<open>Console and paths\<close>

text \<open>
  What \<open>print\<close> and the prompt of \<open>input\<close> write to the console (\<open>py_print\<close>,
  \<open>py_input\<close>). The progress line \<open>"Progress:{:.0%}".format(x)\<close> is kept as the value
  \<open>x\<close> it formats.
\<close>

datatype printed = Text string | Progress rat

text \<open>
  Paths are the strings the source builds. \<open>os.path.join\<close> (POSIX) for two arguments: an
  absolute second argument replaces the first; a separator is inserted unless the first is
  empty or already ends in one.
\<close>

definition os_path_join :: "string \<Rightarrow> string \<Rightarrow> string" where
  "os_path_join a b =
     (if b \<noteq> [] \<and> hd b = CHR ''/'' then b
      else if a = [] \<or> last a = CHR ''/'' then a @ b
      else a @ ''/'' @ b)"

text \<open>
  How the operating system reads a path (POSIX, names compared byte by byte, no symbolic
  links). \<open>split_path\<close> cuts the string at every \<open>/\<close>; empty pieces and \<open>.\<close> name no
  descend and are dropped by \<open>components\<close>. A path that ends in \<open>/\<close> or in a component \<open>.\<close>
  can only name a directory (\<open>wants_dir\<close>). A location is the list of names from the root.
\<close>

fun split_path :: "string \<Rightarrow> string \<Rightarrow> string list" where
  "split_path acc [] = [acc]"
| "split_path acc (x # xs) =
     (if x = CHR ''/'' then acc # split_path [] xs else split_path (acc @ [x]) xs)"

definition components :: "string \<Rightarrow> string list" where
  "components p = filter (\<lambda>c. c \<noteq> [] \<and> c \<noteq> ''.'') (split_path [] p)"

definition is_abs :: "string \<Rightarrow> bool" where
  "is_abs p \<longleftrightarrow> p \<noteq> [] \<and> hd p = CHR ''/''"

definition wants_dir :: "string \<Rightarrow> bool" where
  "wants_dir p \<longleftrightarrow> last (split_path [] p) = [] \<or> last (split_path [] p) = ''.''"

type_synonym location = "string list"

definition descend :: "location \<Rightarrow> string \<Rightarrow> location" where
  "descend cur c = (if c = ''..'' then butlast cur else cur @ [c])"

subsection \<open>The file system\<close>

text \<open>
  The file system holds the location of the current directory, the locations of its
  directories and, for every file, its location and content. The root (the empty location)
  is always a directory.
\<close>

record 'c filesystem =
  cwd :: location
  dirs :: "location list"
  files :: "(location \<times> 'c) list"

definition is_dir :: "'c filesystem \<Rightarrow> location \<Rightarrow> bool" where
  "is_dir f loc \<longleftrightarrow> loc = [] \<or> loc \<in> set (dirs f)"

definition is_file :: "'c filesystem \<Rightarrow> location \<Rightarrow> bool" where
  "is_file f loc \<longleftrightarrow> loc \<in> fst ` set (files f)"

definition start :: "'c filesystem \<Rightarrow> string \<Rightarrow> location" where
  "start f p = (if is_abs p then [] else cwd f)"

text \<open>
  \<open>walk\<close> follows the components of a path from a directory: every component but the last
  must lead to an existing directory. \<open>resolve\<close> is the location a path names, or the error
  the system call gives: on the empty path, on a path with a null byte (Python's own
  check), on a missing or non-directory step.
\<close>

fun walk :: "'c filesystem \<Rightarrow> location \<Rightarrow> string list \<Rightarrow> error + location" where
  "walk f cur [] = Inr cur"
| "walk f cur [c] = Inr (descend cur c)"
| "walk f cur (c # c' # cs) =
     (if is_dir f (descend cur c) then walk f (descend cur c) (c' # cs)
      else if is_file f (descend cur c) then Inl NotADirectoryError
      else Inl FileNotFoundError)"

definition resolve :: "'c filesystem \<Rightarrow> string \<Rightarrow> error + location" where
  "resolve f p =
     (if p = [] then Inl FileNotFoundError
      else if CHR 0x00 \<in> set p then Inl ValueError
      else walk f (start f p) (components p))"

text \<open>\<open>os.path.exists\<close> never raises: a path that cannot be resolved does not exist.\<close>

definition os_path_exists :: "'c filesystem \<Rightarrow> string \<Rightarrow> bool" where
  "os_path_exists f p \<longleftrightarrow>
     (case resolve f p of
        Inl e \<Rightarrow> False
      | Inr loc \<Rightarrow> is_dir f loc \<or> (is_file f loc \<and> \<not> wants_dir p))"

text \<open>
  \<open>os.makedirs\<close> walks the path and makes every missing directory on the way; it raises
  when a step is a file and when the last step exists already. What was made before the
  error stays. Whether the environment lets a directory be made at a location
  (permissions, length of the name, space) is \<open>permits\<close>.
\<close>

fun mk_walk ::
  "(location \<Rightarrow> bool) \<Rightarrow> 'c filesystem \<Rightarrow> location \<Rightarrow> string list \<Rightarrow> (error + unit) \<times> 'c filesystem" where
  "mk_walk permits f cur [] = (Inl FileExistsError, f)"
| "mk_walk permits f cur [c] =
     (if is_dir f (descend cur c) \<or> is_file f (descend cur c) then (Inl FileExistsError, f)
      else if permits (descend cur c) then (Inr (), f\<lparr>dirs := dirs f @ [descend cur c]\<rparr>)
      else (Inl OSError, f))"
| "mk_walk permits f cur (c # c' # cs) =
     (if is_dir f (descend cur c) then mk_walk permits f (descend cur c) (c' # cs)
      else if is_file f (descend cur c) then (Inl NotADirectoryError, f)
      else if permits (descend cur c)
        then mk_walk permits (f\<lparr>dirs := dirs f @ [descend cur c]\<rparr>) (descend cur c) (c' # cs)
      else (Inl OSError, f))"

definition os_makedirs ::
  "(location \<Rightarrow> bool) \<Rightarrow> string \<Rightarrow> 'c filesystem \<Rightarrow> (error + unit) \<times> 'c filesystem" where
  "os_makedirs permits p f =
     (if p = [] then (Inl FileNotFoundError, f)
      else if CHR 0x00 \<in> set p then (Inl ValueError, f)
      else mk_walk permits f (start f p) (components p))"

text \<open>
  \<open>shutil.rmtree\<close> deletes a directory with everything below it; it raises on a path
  that is a file or does not resolve to a directory. On the current directory it deletes
  what is below and then raises; the root is not modelled beyond raising.
\<close>

definition remove_below :: "location \<Rightarrow> 'c filesystem \<Rightarrow> 'c filesystem" where
  "remove_below loc f =
     f\<lparr>dirs := filter (\<lambda>q. \<not> strict_prefix loc q) (dirs f),
       files := filter (\<lambda>e. \<not> strict_prefix loc (fst e)) (files f)\<rparr>"

definition shutil_rmtree :: "string \<Rightarrow> 'c filesystem \<Rightarrow> (error + unit) \<times> 'c filesystem" where
  "shutil_rmtree p f =
     (case resolve f p of
        Inl e \<Rightarrow> (Inl e, f)
      | Inr loc \<Rightarrow>
          if loc = [] then (Inl OSError, f)
          else if loc \<in> set (dirs f) then
            (if loc = cwd f then (Inl OSError, remove_below loc f)
             else (Inr (), (remove_below loc f)\<lparr>dirs := removeAll loc (dirs (remove_below loc f))\<rparr>))
          else if is_file f loc then (Inl NotADirectoryError, f)
          else (Inl FileNotFoundError, f))"

text \<open>\<open>os.listdir\<close>: the names of the entries of a directory (in the order the model
  stores them; Python promises no order). \<open>children\<close> are the locations directly in it.\<close>

definition children :: "'c filesystem \<Rightarrow> location \<Rightarrow> location list" where
  "children f loc =
     remdups (filter (\<lambda>q. q \<noteq> [] \<and> butlast q = loc) (dirs f @ map fst (files f)))"

definition os_listdir :: "'c filesystem \<Rightarrow> string \<Rightarrow> error + string list" where
  "os_listdir f p =
     (case resolve f p of
        Inl e \<Rightarrow> Inl e
      | Inr loc \<Rightarrow>
          if is_dir f loc then Inr (map last (children f loc))
          else if is_file f loc then Inl NotADirectoryError
          else Inl FileNotFoundError)"

subsection \<open>The world \<open>generate_image_data\<close> runs in\<close>

text \<open>
  \<open>stdin\<close> holds the lines the user will type, \<open>stdout\<close> what was printed so far,
  \<open>rand_src\<close> the random generator. Whether a write to disk succeeds is the environment's
  choice: \<open>disk k\<close> tells whether the environment lets the \<open>k\<close>-th coming call of
  \<open>img.save\<close> succeed, \<open>saves\<close> records every call made so far with its outcome, and
  \<open>permits\<close> tells where a directory may be made.
\<close>

record world =
  fs :: "image filesystem"
  stdin :: "string list"
  stdout :: "printed list"
  rand_src :: rng
  disk :: "nat \<Rightarrow> bool"
  saves :: "(string \<times> bool) list"
  permits :: "location \<Rightarrow> bool"

definition py_print :: "printed \<Rightarrow> world \<Rightarrow> world" where
  "py_print x w = w\<lparr>stdout := stdout w @ [x]\<rparr>"

definition py_input :: "string \<Rightarrow> world \<Rightarrow> (error + string) \<times> world" where
  "py_input prompt w =
     (case stdin w of
        [] \<Rightarrow> (Inl EOFError, py_print (Text prompt) w)
      | l # ls \<Rightarrow> (Inr l, (py_print (Text prompt) w)\<lparr>stdin := ls\<rparr>))"

text \<open>
  \<open>img.save(path)\<close> with a name ending in \<open>.jpg\<close> encodes the image as JPEG and opens the
  file for writing. The encoder refuses an empty image and a side of more than 65500
  pixels. The file cannot be opened when the path does not resolve, names a directory or
  can only name one. Otherwise the environment decides. A successful call writes the file
  (replacing one of that name); a failing call raises and writes nothing.
\<close>

definition encodable :: "image \<Rightarrow> bool" where
  "encodable img \<longleftrightarrow>
     0 < fst (img_size img) \<and> fst (img_size img) \<le> 65500 \<and>
     0 < snd (img_size img) \<and> snd (img_size img) \<le> 65500"

definition save_possible :: "'c filesystem \<Rightarrow> string \<Rightarrow> bool" where
  "save_possible f p \<longleftrightarrow>
     (case resolve f p of
        Inl e \<Rightarrow> False
      | Inr loc \<Rightarrow>
          components p \<noteq> [] \<and> last (components p) \<noteq> ''..'' \<and> \<not> wants_dir p \<and> \<not> is_dir f loc)"

definition write_file :: "string \<Rightarrow> 'c \<Rightarrow> 'c filesystem \<Rightarrow> 'c filesystem" where
  "write_file p x f =
     (case resolve f p of
        Inl e \<Rightarrow> f
      | Inr loc \<Rightarrow> f\<lparr>files := AList.update loc x (files f)\<rparr>)"

definition Image_save :: "image \<Rightarrow> string \<Rightarrow> world \<Rightarrow> (error + unit) \<times> world" where
  "Image_save img p w =
     (let ok = (encodable img \<and> save_possible (fs w) p \<and> disk w 0);
          w' = w\<lparr>disk := (\<lambda>k. disk w (Suc k)), saves := saves w @ [(p, ok)]\<rparr>
      in if ok then (Inr (), w'\<lparr>fs := write_file p img (fs w')\<rparr>)
         else (Inl OSError, w'))"

text \<open>\<open>str(i)\<close> for a Python integer: its decimal digits, with a sign when negative.\<close>

definition digit_char :: "nat \<Rightarrow> char" where
  "digit_char d = ''0123456789'' ! d"

function str_nat :: "nat \<Rightarrow> string" where
  "str_nat n = (if n < 10 then [digit_char n] else str_nat (n div 10) @ [digit_char (n mod 10)])"
  by pat_completeness auto
termination
  by (relation "measure id") auto

definition str :: "int \<Rightarrow> string" where
  "str i = (if i < 0 then CHR ''-'' # str_nat (nat (- i)) else str_nat (nat i))"

subsection \<open>\<open>generate_image_data\<close>\<close>

text \<open>
  The \<open>try\<close> statement around \<open>img.save\<close>: save, retry once when the save raised, print
  when the retry raised too. The bare \<open>except\<close> clauses catch whatever \<open>img.save\<close> raises.
\<close>

definition save_with_retry :: "image \<Rightarrow> string \<Rightarrow> world \<Rightarrow> (error + unit) \<times> world" where
  "save_with_retry img imgFileName w =
     (case Image_save img imgFileName w of
        (Inr _, w1) \<Rightarrow> (Inr (), w1)
      | (Inl _, w1) \<Rightarrow>
          (case Image_save img imgFileName w1 of
             (Inr _, w2) \<Rightarrow> (Inr (), w2)
           | (Inl _, w2) \<Rightarrow>
               (Inr (), py_print (Text (''Error saving image '' @ imgFileName)) w2)))"

text \<open>\<open>if not os.path.exists(saveFolder): os.makedirs(saveFolder)\<close>.\<close>

definition ensure_folder :: "string \<Rightarrow> world \<Rightarrow> (error + unit) \<times> world" where
  "ensure_folder saveFolder w =
     (if \<not> os_path_exists (fs w) saveFolder
      then (case os_makedirs (permits w) saveFolder (fs w) of (r, f) \<Rightarrow> (r, w\<lparr>fs := f\<rparr>))
      else (Inr (), w))"

text \<open>
  The body of \<open>for classname in classes\<close>, for the counter value \<open>i\<close>: create the image
  (\<open>Image.fromarray\<close> of \<open>np.array\<close> gives the same raster back), make the class folder
  when it is missing, and save the file under the \<open>try\<close> statement.
\<close>

definition generate_one ::
  "nat \<times> nat \<Rightarrow> string \<Rightarrow> int \<Rightarrow> string \<Rightarrow> world \<Rightarrow> (error + unit) \<times> world" where
  "generate_one sz img_dir i classname w =
     (let (img, g) = create_image sz classname (rand_src w);
          saveFolder = os_path_join img_dir classname
      in case ensure_folder saveFolder (w\<lparr>rand_src := g\<rparr>) of
           (Inl e, w2) \<Rightarrow> (Inl e, w2)
         | (Inr _, w2) \<Rightarrow>
             save_with_retry img (os_path_join saveFolder (classname @ str i @ ''.jpg'')) w2)"

fun for_classname ::
  "nat \<times> nat \<Rightarrow> string \<Rightarrow> int \<Rightarrow> string list \<Rightarrow> world \<Rightarrow> (error + unit) \<times> world" where
  "for_classname sz img_dir i [] w = (Inr (), w)"
| "for_classname sz img_dir i (classname # rest) w =
     (case generate_one sz img_dir i classname w of
        (Inl e, w') \<Rightarrow> (Inl e, w')
      | (Inr _, w') \<Rightarrow> for_classname sz img_dir i rest w')"

text \<open>
  The progress line of a round: printed when the counter is a multiple of 25; the division
  in it can raise.
\<close>

definition progress :: "string list \<Rightarrow> int \<Rightarrow> int \<Rightarrow> world \<Rightarrow> (error + unit) \<times> world" where
  "progress classes cases i w =
     (if i mod 25 = 0 then
        (case py_truediv (i * int (length classes)) cases of
           Inl e \<Rightarrow> (Inl e, w)
         | Inr x \<Rightarrow> (Inr (), py_print (Progress x) w))
      else (Inr (), w))"

text \<open>
  The loop \<open>while i < (cases - 1) / len(classes)\<close>. The bound is computed anew at every
  test. The counter is incremented before the images of the round are made, so file names
  count from 1.
\<close>

function while_i ::
  "string list \<Rightarrow> nat \<times> nat \<Rightarrow> int \<Rightarrow> string \<Rightarrow> int \<Rightarrow> world \<Rightarrow> (error + unit) \<times> world" where
  "while_i classes sz cases img_dir i w =
     (case py_truediv (cases - 1) (int (length classes)) of
        Inl e \<Rightarrow> (Inl e, w)
      | Inr bound \<Rightarrow>
          if rat_of_int i < bound then
            (case progress classes cases i w of
               (Inl e, w1) \<Rightarrow> (Inl e, w1)
             | (Inr _, w1) \<Rightarrow>
                 (case for_classname sz img_dir (i + 1) classes w1 of
                    (Inl e, w2) \<Rightarrow> (Inl e, w2)
                  | (Inr _, w2) \<Rightarrow> while_i classes sz cases img_dir (i + 1) w2))
          else (Inr (), w))"
  by pat_completeness auto
termination
proof (relation "measure (\<lambda>(classes, sz, cases, img_dir, i, w).
    (case py_truediv (cases - 1) (int (length classes)) of
       Inl e \<Rightarrow> 0 | Inr bound \<Rightarrow> nat (\<lceil>bound\<rceil> - i)))", goal_cases)
  case 1
  show ?case by simp
next
  case (2 classes sz cases img_dir i w bound)
  then have "i < \<lceil>bound\<rceil>"
    by (simp add: less_ceiling_iff)
  with 2 show ?case by simp
qed

text \<open>The statements after the check of the folder: make it, announce, run the loop.\<close>

definition generate_new ::
  "string list \<Rightarrow> nat \<times> nat \<Rightarrow> int \<Rightarrow> string \<Rightarrow> world \<Rightarrow> (error + unit) \<times> world" where
  "generate_new classes sz cases img_dir w =
     (case os_makedirs (permits w) img_dir (fs w) of
        (Inl e, f) \<Rightarrow> (Inl e, w\<lparr>fs := f\<rparr>)
      | (Inr _, f) \<Rightarrow>
          while_i classes sz cases img_dir 0
            (py_print (Text ''Generating new images...'') (w\<lparr>fs := f\<rparr>)))"

definition generate_image_data ::
  "string list \<Rightarrow> nat \<times> nat \<Rightarrow> int \<Rightarrow> string \<Rightarrow> world \<Rightarrow> (error + unit) \<times> world" where
  "generate_image_data classes sz cases img_dir w =
     (if os_path_exists (fs w) img_dir then
        (case py_input
            ''Image folder already exists. Enter Y to replace it (this can take a while!). \<newline>'' w of
           (Inl e, w1) \<Rightarrow> (Inl e, w1)
         | (Inr replace_folder, w1) \<Rightarrow>
             if replace_folder = ''Y'' then
               (case shutil_rmtree img_dir (fs (py_print (Text ''Deleting old images...'') w1)) of
                  (Inl e, f) \<Rightarrow> (Inl e, (py_print (Text ''Deleting old images...'') w1)\<lparr>fs := f\<rparr>)
                | (Inr _, f) \<Rightarrow>
                    generate_new classes sz cases img_dir
                      ((py_print (Text ''Deleting old images...'') w1)\<lparr>fs := f\<rparr>))
             else (Inr (), w1))
      else generate_new classes sz cases img_dir w)"

subsection \<open>\<open>predict_image\<close>\<close>

text \<open>
  Python list indexing: a negative index counts from the end, an index out of range raises.
\<close>

definition py_index :: "'a list \<Rightarrow> int \<Rightarrow> error + 'a" where
  "py_index xs i =
     (if 0 \<le> i \<and> i < int (length xs) then Inr (xs ! nat i)
      else if i < 0 \<and> - int (length xs) \<le> i then Inr (xs ! nat (int (length xs) + i))
      else Inl IndexError)"

text \<open>
  \<open>np.argmax\<close> of a vector: the index of its largest entry, the first one when the maximum
  occurs several times; it raises on an empty vector. \<open>argmax_from best bi k xs\<close> scans
  \<open>xs\<close>, whose first entry has index \<open>k\<close>, with the best entry so far \<open>best\<close> at \<open>bi\<close>.
\<close>

fun argmax_from :: "rat \<Rightarrow> nat \<Rightarrow> nat \<Rightarrow> rat list \<Rightarrow> nat" where
  "argmax_from best bi k [] = bi"
| "argmax_from best bi k (x # xs) =
     (if best < x then argmax_from x k (Suc k) xs else argmax_from best bi (Suc k) xs)"

definition np_argmax :: "rat list \<Rightarrow> error + nat" where
  "np_argmax xs = (case xs of [] \<Rightarrow> Inl ValueError | x # rest \<Rightarrow> Inr (argmax_from x 0 1 rest))"

definition classnames :: "string list" where
  "classnames = [''circle'', ''square'', ''triangle'']"

text \<open>The loop \<open>for prediction in predictions\<close>, appending to \<open>predicted_classes\<close>.\<close>

fun for_prediction :: "rat list list \<Rightarrow> string list \<Rightarrow> error + string list" where
  "for_prediction [] predicted_classes = Inr predicted_classes"
| "for_prediction (prediction # rest) predicted_classes =
     (case np_argmax prediction of
        Inl e \<Rightarrow> Inl e
      | Inr class_idx \<Rightarrow>
          (case py_index classnames (int class_idx) of
             Inl e \<Rightarrow> Inl e
           | Inr name \<Rightarrow> for_prediction rest (predicted_classes @ [name])))"

text \<open>
  The classifier is the function \<open>classifier.predict\<close> computes, from the batch of scaled
  images (each a list of pixel values; the rounding of \<open>float32\<close> is not modelled) to one
  vector of class probabilities per image.
\<close>

definition predict_image ::
  "(rat list list \<Rightarrow> rat list list) \<Rightarrow> rat list list \<Rightarrow> error + string list" where
  "predict_image classifier image_array =
     (let imgfeatures = map (map (\<lambda>v. v / 255)) image_array;
          predictions = classifier imgfeatures
      in for_prediction predictions [])"

section \<open>Segmentation notebook\<close>

subsection \<open>\<open>PlaneDataSet\<close>\<close>

text \<open>A greyscale raster is the list of its rows of pixel values.\<close>

type_synonym raster = "rat list list"

record PlaneDataSet =
  image_path :: string
  mask_path :: string
  filenames :: "string list"

definition PlaneDataSet_init ::
  "raster filesystem \<Rightarrow> string \<Rightarrow> string \<Rightarrow> error + PlaneDataSet" where
  "PlaneDataSet_init f image_path' mask_path' =
     (case os_listdir f mask_path' of
        Inl e \<Rightarrow> Inl e
      | Inr names \<Rightarrow>
          Inr \<lparr>image_path = image_path', mask_path = mask_path', filenames = names\<rparr>)"

definition PlaneDataSet_len :: "PlaneDataSet \<Rightarrow> nat" where
  "PlaneDataSet_len self = length (filenames self)"

text \<open>\<open>io.imread\<close> reads the file a path names.\<close>

definition io_imread :: "raster filesystem \<Rightarrow> string \<Rightarrow> error + raster" where
  "io_imread f p =
     (case resolve f p of
        Inl e \<Rightarrow> Inl e
      | Inr loc \<Rightarrow>
          if is_dir f loc then Inl IsADirectoryError
          else (case map_of (files f) loc of
                  None \<Rightarrow> Inl FileNotFoundError
                | Some r \<Rightarrow> if wants_dir p then Inl NotADirectoryError else Inr r))"

definition FLIP_LEFT_RIGHT :: "raster \<Rightarrow> raster" where
  "FLIP_LEFT_RIGHT r = map rev r"

text \<open>
  \<open>__getitem__\<close>: one draw of \<open>random.randint(0, 2)\<close>, then the image and the mask of the
  file name at \<open>index\<close>, each divided by 255, mirrored and converted when \<open>rand > 1\<close>, and
  wrapped in a leading dimension. The pixel conversion of \<open>convert("L")\<close> is the library's
  and is a parameter, \<open>convert_L\<close>. The source indexes \<open>self.filenames\<close> a second time for
  the mask, with the same result.
\<close>

definition getitem ::
  "(rat \<Rightarrow> rat) \<Rightarrow> raster filesystem \<Rightarrow> PlaneDataSet \<Rightarrow> int \<Rightarrow> rng \<Rightarrow>
     (error + raster list \<times> raster list) \<times> rng" where
  "getitem convert_L f self index g0 =
     (let (rand, g1) = randint 0 2 g0
      in case py_index (filenames self) index of
           Inl e \<Rightarrow> (Inl e, g1)
         | Inr name \<Rightarrow>
             (case io_imread f (os_path_join (image_path self) name) of
                Inl e \<Rightarrow> (Inl e, g1)
              | Inr image_gray \<Rightarrow>
                  (let image_np = map (map (\<lambda>v. v / 255)) image_gray;
                       image_np' = (if rand > 1
                                    then map (map convert_L) (FLIP_LEFT_RIGHT image_np)
                                    else image_np);
                       image_tensor = [image_np']
                   in case io_imread f (os_path_join (mask_path self) name) of
                        Inl e \<Rightarrow> (Inl e, g1)
                      | Inr mask_gray \<Rightarrow>
                          (let mask_np = map (map (\<lambda>v. v / 255)) mask_gray;
                               mask_np' = (if rand > 1
                                           then map (map convert_L) (FLIP_LEFT_RIGHT mask_np)
                                           else mask_np);
                               mask_tensor = [mask_np']
                           in (Inr (image_tensor, mask_tensor), g1)))))"

subsection \<open>\<open>train\<close>\<close>

text \<open>
  A data loader holds its dataset and its batch size; iterating it yields the dataset in
  batches of that size, the last one shorter when the sizes do not divide (the order in
  which \<open>shuffle\<close> presents the samples is not modelled).
\<close>

record 's data_loader =
  dataset :: "'s list"
  batch_size :: nat

function batches :: "nat \<Rightarrow> 's list \<Rightarrow> 's list list" where
  "batches n xs = (if n = 0 \<or> xs = [] then [] else take n xs # batches n (drop n xs))"
  by pat_completeness auto
termination
  by (relation "measure (\<lambda>(n, xs). length xs)") auto

text \<open>
  One pass of the loop body is \<open>step\<close>: the forward pass, the loss of the batch
  (\<open>loss.item()\<close>), backpropagation and the optimizer's update of the model.
  \<open>for_batch\<close> is the loop, keeping the running total \<open>train_loss\<close>; \<open>train\<close> divides the
  total by \<open>len(data_loader.dataset)\<close>.
\<close>

fun for_batch ::
  "('m \<Rightarrow> 's list \<Rightarrow> rat \<times> 'm) \<Rightarrow> 's list list \<Rightarrow> 'm \<Rightarrow> rat \<Rightarrow> rat \<times> 'm" where
  "for_batch step [] model train_loss = (train_loss, model)"
| "for_batch step (b # bs) model train_loss =
     (let (loss, model') = step model b in for_batch step bs model' (train_loss + loss))"

definition train ::
  "('m \<Rightarrow> 's list \<Rightarrow> rat \<times> 'm) \<Rightarrow> 'm \<Rightarrow> 's data_loader \<Rightarrow> (error + rat) \<times> 'm" where
  "train step model data_loader' =
     (let (train_loss, model') =
            for_batch step (batches (batch_size data_loader') (dataset data_loader')) model 0
      in if length (dataset data_loader') = 0 then (Inl ZeroDivisionError, model')
         else (Inr (train_loss / rat_of_nat (length (dataset data_loader'))), model'))"


section \<open>Notions the properties are stated with\<close>

text \<open>A random source that yields the listed raw draws, then zeros.\<close>

definition draws :: "nat list \<Rightarrow> rng" where
  "draws rs = (\<lambda>k. if k < length rs then rs ! k else 0)"

text \<open>The loss values one epoch adds to the running total, one per batch, and the mean of
  a list of values.\<close>

fun batch_losses :: "('m \<Rightarrow> 's list \<Rightarrow> rat \<times> 'm) \<Rightarrow> 's list list \<Rightarrow> 'm \<Rightarrow> rat list" where
  "batch_losses step [] model = []"
| "batch_losses step (b # bs) model =
     fst (step model b) # batch_losses step bs (snd (step model b))"

definition mean :: "rat list \<Rightarrow> rat" where
  "mean xs = sum_list xs / rat_of_nat (length xs)"

text \<open>Sample data: a segmentation directory with one image and its mask, the dataset over
  it, and a world in which the folder \<open>shapes\<close> exists and the user answers \<open>y\<close>.\<close>

definition sample_fs :: "raster filesystem" where
  "sample_fs = \<lparr>cwd = [], dirs = [[''d''], [''d'', ''image''], [''d'', ''mask'']],
     files = [([''d'', ''image'', ''a.png''], [[0, 255]]),
              ([''d'', ''mask'', ''a.png''], [[255, 0]])]\<rparr>"

definition sample_dataset :: PlaneDataSet where
  "sample_dataset = \<lparr>image_path = ''d/image'', mask_path = ''d/mask'', filenames = [''a.png'']\<rparr>"

definition sample_world :: world where
  "sample_world =
     \<lparr>fs = \<lparr>cwd = [''home''],
             dirs = [[''home''], [''home'', ''shapes''], [''home'', ''shapes'', ''circle'']],
             files = [([''home'', ''shapes'', ''circle'', ''circle1.jpg''],
                       Image_new ''RGB'' (128, 128) (255, 255, 255))]\<rparr>,
      stdin = [''y''], stdout = [], rand_src = draws [], disk = (\<lambda>k. True), saves = [],
      permits = (\<lambda>loc. True)\<rparr>"

text \<open>
  The files and the directories that lie directly in the directory at a location. A
  segmentation directory whose mask folder holds two files and a folder.
\<close>

definition file_entries :: "'c filesystem \<Rightarrow> location \<Rightarrow> location list" where
  "file_entries f loc = remdups (filter (\<lambda>q. q \<noteq> [] \<and> butlast q = loc) (map fst (files f)))"

definition dir_entries :: "'c filesystem \<Rightarrow> location \<Rightarrow> location list" where
  "dir_entries f loc = remdups (filter (\<lambda>q. q \<noteq> [] \<and> butlast q = loc) (dirs f))"

definition masks_with_folder :: "raster filesystem" where
  "masks_with_folder =
     \<lparr>cwd = [],
      dirs = [[''d''], [''d'', ''image''], [''d'', ''mask''], [''d'', ''mask'', ''old'']],
      files = [([''d'', ''image'', ''a.png''], [[0, 255]]),
               ([''d'', ''image'', ''b.png''], [[7, 9]]),
               ([''d'', ''mask'', ''a.png''], [[255, 0]]),
               ([''d'', ''mask'', ''b.png''], [[0, 0]])]\<rparr>"



text \<open>The recursion equations of the loops are unfolded by hand, not by the simplifier.\<close>

declare str_nat.simps [simp del]
declare while_i.simps [simp del]
declare batches.simps [simp del]

section \<open>Properties of \<open>create_image\<close>\<close>

lemma randint_fst: "fst (randint a b g) = a + int (g 0 mod nat (b - a + 1))"
  by (simp add: randint_def)

lemma randint_range:
  assumes "a \<le> b"
  shows "a \<le> fst (randint a b g)" and "fst (randint a b g) \<le> b"
proof -
  have pos: "0 < nat (b - a + 1)" using assms by simp
  have "g 0 mod nat (b - a + 1) < nat (b - a + 1)" using pos by (rule mod_less_divisor)
  then have "int (g 0 mod nat (b - a + 1)) < b - a + 1" using assms by linarith
  then show "fst (randint a b g) \<le> b" by (simp add: randint_fst)
  show "a \<le> fst (randint a b g)" by (simp add: randint_fst)
qed

text \<open>The five draws of \<open>create_image\<close>, in the order the source makes them.\<close>

lemma create_image_eq:
  "create_image sz shape g =
     (let xy1 = fst (randint 10 40 g);
          xy2 = fst (randint 60 100 (\<lambda>k. g (Suc k)));
          col = (fst (randint 0 200 (\<lambda>k. g (Suc (Suc k)))),
                 fst (randint 0 200 (\<lambda>k. g (Suc (Suc (Suc k))))),
                 fst (randint 0 200 (\<lambda>k. g (Suc (Suc (Suc (Suc k)))))))
      in (\<lparr>img_mode = ''RGB'', img_size = sz, img_background = (255, 255, 255),
           img_drawn =
             [if shape = ''circle'' then Ellipse (xy1, xy1) (xy2, xy2) col
              else if shape = ''square'' then Rectangle (xy1, xy1) (xy2, xy2) col
              else Polygon [(xy1, xy1), (xy2, xy2), (xy2, xy1)] col]\<rparr>,
          \<lambda>k. g (Suc (Suc (Suc (Suc (Suc k)))))))"
  by (simp add: create_image_def randint_def Image_new_def draw_ellipse_def draw_rectangle_def
      draw_polygon_def Let_def)

lemma create_image_drawn:
  "\<exists>c. img_drawn (fst (create_image sz shape g)) = [c] \<and>
       take 2 (cmd_points c) =
         [(fst (randint 10 40 g), fst (randint 10 40 g)),
          (fst (randint 60 100 (\<lambda>k. g (Suc k))), fst (randint 60 100 (\<lambda>k. g (Suc k))))] \<and>
       cmd_fill c = (fst (randint 0 200 (\<lambda>k. g (Suc (Suc k)))),
                 fst (randint 0 200 (\<lambda>k. g (Suc (Suc (Suc k))))),
                 fst (randint 0 200 (\<lambda>k. g (Suc (Suc (Suc (Suc k)))))))"
  by (simp add: create_image_eq Let_def cmd_points_def cmd_fill_def)

lemma create_image_bounds:
  "\<exists>c xy1 xy2 c1 c2 c3.
     img_drawn (fst (create_image sz shape g)) = [c] \<and>
     take 2 (cmd_points c) = [(xy1, xy1), (xy2, xy2)] \<and> cmd_fill c = (c1, c2, c3) \<and>
     10 \<le> xy1 \<and> xy1 \<le> 40 \<and> 60 \<le> xy2 \<and> xy2 \<le> 100 \<and> 20 \<le> xy2 - xy1 \<and>
     0 \<le> c1 \<and> c1 \<le> 200 \<and> 0 \<le> c2 \<and> c2 \<le> 200 \<and> 0 \<le> c3 \<and> c3 \<le> 200"
proof -
  obtain c where c: "img_drawn (fst (create_image sz shape g)) = [c]"
    "take 2 (cmd_points c) =
         [(fst (randint 10 40 g), fst (randint 10 40 g)),
          (fst (randint 60 100 (\<lambda>k. g (Suc k))), fst (randint 60 100 (\<lambda>k. g (Suc k))))]"
    "cmd_fill c = (fst (randint 0 200 (\<lambda>k. g (Suc (Suc k)))),
                 fst (randint 0 200 (\<lambda>k. g (Suc (Suc (Suc k))))),
                 fst (randint 0 200 (\<lambda>k. g (Suc (Suc (Suc (Suc k)))))))"
    using create_image_drawn by blast
  have a: "10 \<le> fst (randint 10 40 g)" "fst (randint 10 40 g) \<le> 40"
    by (rule randint_range, simp)+
  have b: "60 \<le> fst (randint 60 100 (\<lambda>k. g (Suc k)))" "fst (randint 60 100 (\<lambda>k. g (Suc k))) \<le> 100"
    by (rule randint_range, simp)+
  have d: "20 \<le> fst (randint 60 100 (\<lambda>k. g (Suc k))) - fst (randint 10 40 g)"
    using a b by linarith
  have e: "0 \<le> fst (randint 0 200 h)" "fst (randint 0 200 h) \<le> 200" for h
    by (rule randint_range, simp)+
  show ?thesis
    using c a b d e by blast
qed

lemma create_image_unique_draws:
  assumes "10 \<le> a" "a \<le> 40" "60 \<le> b" "b \<le> 100" "0 \<le> r" "r \<le> 200" "0 \<le> s" "s \<le> 200"
    "0 \<le> t" "t \<le> 200"
  shows "\<exists>!q. case q of (q1, q2, q3, q4, q5) \<Rightarrow>
      q1 < 31 \<and> q2 < 41 \<and> q3 < 201 \<and> q4 < 201 \<and> q5 < 201 \<and>
      (\<exists>c. img_drawn (fst (create_image sz shape (draws [q1, q2, q3, q4, q5]))) = [c] \<and>
         take 2 (cmd_points c) = [(a, a), (b, b)] \<and> cmd_fill c = (r, s, t))"
proof (rule ex1I [of _ "(nat (a - 10), nat (b - 60), nat r, nat s, nat t)"])
  show "case (nat (a - 10), nat (b - 60), nat r, nat s, nat t) of (q1, q2, q3, q4, q5) \<Rightarrow>
      q1 < 31 \<and> q2 < 41 \<and> q3 < 201 \<and> q4 < 201 \<and> q5 < 201 \<and>
      (\<exists>c. img_drawn (fst (create_image sz shape (draws [q1, q2, q3, q4, q5]))) = [c] \<and>
         take 2 (cmd_points c) = [(a, a), (b, b)] \<and> cmd_fill c = (r, s, t))"
    using assms
    by (simp add: create_image_eq Let_def cmd_points_def cmd_fill_def randint_fst draws_def)
      (intro conjI; linarith)
next
  fix q :: "nat \<times> nat \<times> nat \<times> nat \<times> nat"
  assume q: "case q of (q1, q2, q3, q4, q5) \<Rightarrow>
      q1 < 31 \<and> q2 < 41 \<and> q3 < 201 \<and> q4 < 201 \<and> q5 < 201 \<and>
      (\<exists>c. img_drawn (fst (create_image sz shape (draws [q1, q2, q3, q4, q5]))) = [c] \<and>
         take 2 (cmd_points c) = [(a, a), (b, b)] \<and> cmd_fill c = (r, s, t))"
  obtain q1 q2 q3 q4 q5 where qq: "q = (q1, q2, q3, q4, q5)"
    by (cases q) auto
  from q show "q = (nat (a - 10), nat (b - 60), nat r, nat s, nat t)"
    unfolding qq
    by (auto simp add: create_image_eq Let_def cmd_points_def cmd_fill_def randint_fst draws_def
        split: if_splits)
qed


subsection \<open>The pixels of the raster\<close>

lemma pixel_one_call:
  "img_drawn img = [c] \<Longrightarrow>
   pixel img (x, y) = paint (int x, int y) (Some (img_background img)) c"
  by (simp add: pixel_def)

lemma paint_values: "paint p (Some bg) c \<in> {None, Some bg, Some (cmd_fill c)}"
  by (simp add: paint_def split: option.splits)

lemma outside_box:
  fixes a b x y :: int
  assumes "x < a \<or> b < x \<or> y < a \<or> b < y" and "a \<le> b"
  shows "\<not> in_box [(a, a), (b, b)] (x, y)" and "\<not> in_box [(a, a), (b, b), (b, a)] (x, y)"
  using assms unfolding in_box_def by simp_all linarith+

lemma paint_outside_box:
  assumes "x < a \<or> b < x \<or> y < a \<or> b < y" and "a \<le> b"
  shows "paint (x, y) (Some bg) (if shape = ''circle'' then Ellipse (a, a) (b, b) col
            else if shape = ''square'' then Rectangle (a, a) (b, b) col
            else Polygon [(a, a), (b, b), (b, a)] col) = Some bg"
  using outside_box [OF assms] assms(2) by (simp add: paint_def)

lemma square_ge:
  fixes d :: int
  assumes "18 \<le> d"
  shows "324 \<le> d * d"
proof -
  have "18 * 18 \<le> d * d"
    using assms by (intro mult_mono) simp_all
  then show ?thesis by simp
qed

lemma centre_in_circle:
  fixes a b :: int
  assumes "a + 20 \<le> b"
  shows "in_ellipse (a, a) (b, b) (- 1) ((a + b) div 2, (a + b) div 2)"
proof -
  define d where "d = b - a - 2"
  define x where "x = 2 * ((a + b) div 2) - a - b"
  have d: "18 \<le> d" using assms by (simp add: d_def)
  have "x = 0 \<or> x = - 1" unfolding x_def by presburger
  then have x: "x * x \<le> 1" by auto
  have dd: "324 \<le> d * d" using d by (rule square_ge)
  have "x * x * (d * d) \<le> 1 * (d * d)"
    using x by (intro mult_right_mono) simp_all
  moreover have "2 * (d * d) \<le> d * d * (d * d)"
    using dd by (intro mult_right_mono) simp_all
  ultimately have "x * x * (d * d) + x * x * (d * d) \<le> d * d * (d * d)"
    by linarith
  moreover have "0 < d" using d by simp
  ultimately show ?thesis
    by (simp add: in_ellipse_def Let_def d_def x_def)
qed

lemma paint_circle_centre:
  fixes a b :: int
  assumes "a + 20 \<le> b"
  shows "paint ((a + b) div 2, (a + b) div 2) (Some bg) (Ellipse (a, a) (b, b) col) = Some col"
proof -
  have "a \<le> (a + b) div 2" "(a + b) div 2 \<le> b"
    using assms by presburger+
  then have "in_box [(a, a), (b, b)] ((a + b) div 2, (a + b) div 2)"
    by (simp add: in_box_def)
  then show ?thesis
    using assms centre_in_circle [OF assms]
    by (simp add: paint_def cmd_fill_def)
qed

lemma paint_square_centre:
  fixes a b :: int
  assumes "a + 20 \<le> b"
  shows "paint ((a + b) div 2, (a + b) div 2) (Some bg) (Rectangle (a, a) (b, b) col) = Some col"
proof -
  have "a \<le> (a + b) div 2" "(a + b) div 2 \<le> b"
    using assms by presburger+
  then show ?thesis
    using assms by (simp add: paint_def cmd_fill_def in_box_def)
qed

lemma paint_triangle_inside:
  fixes a b :: int
  assumes "a + 20 \<le> b"
  shows "paint (b - 1, a + 1) (Some bg) (Polygon [(a, a), (b, b), (b, a)] col) = Some col"
proof -
  define d where "d = b - a"
  have d: "20 \<le> d" using assms by (simp add: d_def)
  have dd: "324 \<le> d * d" using d by (intro square_ge) simp
  have box: "in_box [(a, a), (b, b), (b, a)] (b - 1, a + 1)"
    using assms by (simp add: in_box_def)
  have e0: "edge (a, a) (b, b) (b, a) = - (d * d)"
    by (simp add: edge_def d_def algebra_simps)
  have s: "sgn (edge (a, a) (b, b) (b, a)) = - 1"
    using dd by (simp add: e0)
  have e1: "edge (a, a) (b, b) (b - 1, a + 1) = - (d * (d - 2))"
    by (simp add: edge_def d_def algebra_simps)
  have e2: "edge (b, b) (b, a) (b - 1, a + 1) = - d"
    by (simp add: edge_def d_def algebra_simps)
  have e3: "edge (b, a) (a, a) (b - 1, a + 1) = - d"
    by (simp add: edge_def d_def algebra_simps)
  have p1: "0 < d * (d - 2)" using d by simp
  have "2 * 2 \<le> (d - 2) * (d - 2)"
    using d by (intro mult_mono) simp_all
  then have "(d * d) * 2 \<le> (d * d) * ((d - 2) * (d - 2))"
    using dd by (intro mult_left_mono) simp_all
  then have q1: "d * d + d * d \<le> d * (d - 2) * (d * (d - 2))"
    by (simp add: algebra_simps)
  have f1: "far_side (- 1) (a, a) (b, b) (b - 1, a + 1)"
    using p1 q1 by (simp add: far_side_def e1) (simp add: d_def)
  have f2: "far_side (- 1) (b, b) (b, a) (b - 1, a + 1)"
    using d by (simp add: far_side_def e2) (simp add: d_def algebra_simps)
  have f3: "far_side (- 1) (b, a) (a, a) (b - 1, a + 1)"
    using d by (simp add: far_side_def e3) (simp add: d_def algebra_simps)
  show ?thesis
    using box s f1 f2 f3 by (simp add: paint_def cmd_fill_def)
qed

lemma create_image_pixels:
  assumes "100 < fst sz" and "100 < snd sz"
  shows "\<exists>c xy1 xy2 c1 c2 c3.
     img_drawn (fst (create_image sz shape g)) = [c] \<and>
     take 2 (cmd_points c) = [(xy1, xy1), (xy2, xy2)] \<and> cmd_fill c = (c1, c2, c3) \<and>
     10 \<le> xy1 \<and> xy1 \<le> 40 \<and> 60 \<le> xy2 \<and> xy2 \<le> 100 \<and>
     0 \<le> c1 \<and> c1 \<le> 200 \<and> 0 \<le> c2 \<and> c2 \<le> 200 \<and> 0 \<le> c3 \<and> c3 \<le> 200 \<and>
     (\<forall>x y. int x < xy1 \<or> xy2 < int x \<or> int y < xy1 \<or> xy2 < int y \<longrightarrow>
        pixel (fst (create_image sz shape g)) (x, y) = Some (255, 255, 255)) \<and>
     (\<forall>x y. pixel (fst (create_image sz shape g)) (x, y)
        \<in> {None, Some (255, 255, 255), Some (c1, c2, c3)}) \<and>
     (\<exists>x y. x < fst sz \<and> y < snd sz \<and> xy1 \<le> int x \<and> int x \<le> xy2 \<and> xy1 \<le> int y \<and>
        int y \<le> xy2 \<and> pixel (fst (create_image sz shape g)) (x, y) = Some (c1, c2, c3))"
proof -
  define xy1 where "xy1 = fst (randint 10 40 g)"
  define xy2 where "xy2 = fst (randint 60 100 (\<lambda>k. g (Suc k)))"
  define c1 where "c1 = fst (randint 0 200 (\<lambda>k. g (Suc (Suc k))))"
  define c2 where "c2 = fst (randint 0 200 (\<lambda>k. g (Suc (Suc (Suc k)))))"
  define c3 where "c3 = fst (randint 0 200 (\<lambda>k. g (Suc (Suc (Suc (Suc k))))))"
  define c where "c = (if shape = ''circle'' then Ellipse (xy1, xy1) (xy2, xy2) (c1, c2, c3)
              else if shape = ''square'' then Rectangle (xy1, xy1) (xy2, xy2) (c1, c2, c3)
              else Polygon [(xy1, xy1), (xy2, xy2), (xy2, xy1)] (c1, c2, c3))"
  define img where "img = fst (create_image sz shape g)"
  have drawn: "img_drawn img = [c]"
    by (simp add: img_def create_image_eq Let_def c_def xy1_def xy2_def c1_def c2_def c3_def)
  have bg: "img_background img = (255, 255, 255)"
    by (simp add: img_def create_image_eq Let_def)
  have a: "10 \<le> xy1" "xy1 \<le> 40"
    unfolding xy1_def by (rule randint_range, simp)+
  have b: "60 \<le> xy2" "xy2 \<le> 100"
    unfolding xy2_def by (rule randint_range, simp)+
  have e: "0 \<le> fst (randint 0 200 h)" "fst (randint 0 200 h) \<le> 200" for h
    by (rule randint_range, simp)+
  have col: "0 \<le> c1" "c1 \<le> 200" "0 \<le> c2" "c2 \<le> 200" "0 \<le> c3" "c3 \<le> 200"
    unfolding c1_def c2_def c3_def by (rule e)+
  have pts: "take 2 (cmd_points c) = [(xy1, xy1), (xy2, xy2)]"
    by (simp add: c_def cmd_points_def)
  have fill: "cmd_fill c = (c1, c2, c3)"
    by (simp add: c_def cmd_fill_def)
  have px: "pixel img (x, y) = paint (int x, int y) (Some (255, 255, 255)) c" for x y
    using pixel_one_call [OF drawn, of x y] by (simp add: bg)
  have le: "xy1 \<le> xy2" and far: "xy1 + 20 \<le> xy2"
    using a b by linarith+
  have outside: "pixel img (x, y) = Some (255, 255, 255)"
    if "int x < xy1 \<or> xy2 < int x \<or> int y < xy1 \<or> xy2 < int y" for x y
    unfolding px c_def using that le by (rule paint_outside_box)
  have vals: "pixel img (x, y) \<in> {None, Some (255, 255, 255), Some (c1, c2, c3)}" for x y
    unfolding px using paint_values [of "(int x, int y)" "(255, 255, 255)" c]
    by (simp add: fill)
  have inside: "\<exists>x y. x < fst sz \<and> y < snd sz \<and> xy1 \<le> int x \<and> int x \<le> xy2 \<and> xy1 \<le> int y \<and>
        int y \<le> xy2 \<and> pixel img (x, y) = Some (c1, c2, c3)"
  proof -
    define m where "m = nat ((xy1 + xy2) div 2)"
    have m: "int m = (xy1 + xy2) div 2" "xy1 \<le> int m" "int m \<le> xy2" "int m \<le> 100"
      using a b unfolding m_def by auto
    have mw: "m < fst sz" "m < snd sz"
      using m(4) assms by linarith+
    define u where "u = nat (xy2 - 1)"
    define v where "v = nat (xy1 + 1)"
    have uv: "int u = xy2 - 1" "int v = xy1 + 1"
      using a b unfolding u_def v_def by auto
    have uw: "u < fst sz" "v < snd sz"
      using uv a b assms by linarith+
    show ?thesis
    proof (cases "shape = ''circle''")
      case True
      have "pixel img (m, m) = Some (c1, c2, c3)"
        unfolding px by (simp add: c_def True m(1) paint_circle_centre [OF far])
      then show ?thesis using m mw by blast
    next
      case False
      show ?thesis
      proof (cases "shape = ''square''")
        case True
        have "pixel img (m, m) = Some (c1, c2, c3)"
          unfolding px by (simp add: c_def True m(1) paint_square_centre [OF far])
        then show ?thesis using m mw by blast
      next
        case sq: False
        have "pixel img (u, v) = Some (c1, c2, c3)"
          unfolding px using False sq by (simp add: c_def uv paint_triangle_inside [OF far])
        moreover have "xy1 \<le> int u" "int u \<le> xy2" "xy1 \<le> int v" "int v \<le> xy2"
          using uv a b by linarith+
        ultimately show ?thesis using uw by blast
      qed
    qed
  qed
  show ?thesis
    using drawn pts fill a b col outside vals inside unfolding img_def by blast
qed

lemma create_image_small_raster:
  "raster_of (fst (create_image (5, 3) shape g)) = replicate 3 (replicate 5 (Some (255, 255, 255)))"
proof -
  define xy1 where "xy1 = fst (randint 10 40 g)"
  define xy2 where "xy2 = fst (randint 60 100 (\<lambda>k. g (Suc k)))"
  define col where "col = (fst (randint 0 200 (\<lambda>k. g (Suc (Suc k)))),
                 fst (randint 0 200 (\<lambda>k. g (Suc (Suc (Suc k))))),
                 fst (randint 0 200 (\<lambda>k. g (Suc (Suc (Suc (Suc k)))))))"
  define c where "c = (if shape = ''circle'' then Ellipse (xy1, xy1) (xy2, xy2) col
              else if shape = ''square'' then Rectangle (xy1, xy1) (xy2, xy2) col
              else Polygon [(xy1, xy1), (xy2, xy2), (xy2, xy1)] col)"
  define img where "img = fst (create_image (5, 3) shape g)"
  have drawn: "img_drawn img = [c]"
    by (simp add: img_def create_image_eq Let_def c_def xy1_def xy2_def col_def)
  have bg: "img_background img = (255, 255, 255)"
    by (simp add: img_def create_image_eq Let_def)
  have sz: "img_size img = (5, 3)"
    by (simp add: img_def create_image_eq Let_def)
  have a: "10 \<le> xy1" "xy1 \<le> 40"
    unfolding xy1_def by (rule randint_range, simp)+
  have b: "60 \<le> xy2"
    unfolding xy2_def by (rule randint_range, simp)
  have le: "xy1 \<le> xy2" using a b by linarith
  have px: "pixel img (x, y) = Some (255, 255, 255)" if "x < 5" for x y
  proof -
    have "int x < xy1 \<or> xy2 < int x \<or> int y < xy1 \<or> xy2 < int y"
      using that a by linarith
    then have "paint (int x, int y) (Some (255, 255, 255)) c = Some (255, 255, 255)"
      unfolding c_def using le by (rule paint_outside_box)
    then show ?thesis
      using pixel_one_call [OF drawn, of x y] by (simp add: bg)
  qed
  have five: "[0..<5] = [0, 1, 2, 3, 4]" and three: "[0..<3] = [0, 1, 2]"
    by (simp_all add: upt_rec)
  have rep: "replicate 3 r = [r, r, r]" "replicate 5 v = [v, v, v, v, v]" for r :: "'a" and v :: "'b"
    by (simp_all add: numeral_3_eq_3 eval_nat_numeral)
  show ?thesis
    unfolding img_def [symmetric]
    by (simp add: raster_of_def sz five three px rep)
qed

text \<open>
  Claim C6 (amended). The claim does not hold for every size: the shape is drawn at fixed
  coordinates between 10 and 100, so on a raster with a side of 100 pixels or less part or
  all of it falls outside (see \<open>create_image_small_size_no_shape\<close>), and the imaging
  library takes no size beyond its limits. For a width and a height above 100 and up to
  4096 pixels, the array returned has the requested dimensions and the image carries
  exactly one drawing call. The first corner of that call is \<open>(xy1, xy1)\<close> with \<open>xy1\<close> in
  [10, 40], the second \<open>(xy2, xy2)\<close> with \<open>xy2\<close> in [60, 100]; each channel of its fill
  colour lies in [0, 200], so the colour is not the white of the background. Every pixel
  outside the box of the two corners is white (255, 255, 255), every pixel is white, of the
  fill colour or on the outline, and some pixel of the raster, inside the box, has the fill
  colour. Uniformity: every corner pair and colour of these ranges is produced by exactly
  one vector of raw draws within one period of the generator (31, 41 and three times 201
  values), so equally likely raw draws give equally likely shapes.
\<close>

theorem create_image_contract:
  assumes "100 < fst sz" and "fst sz \<le> 4096" and "100 < snd sz" and "snd sz \<le> 4096"
  shows "array_shape (fst (create_image sz shape g)) = (snd sz, fst sz, 3) \<and>
   length (raster_of (fst (create_image sz shape g))) = snd sz \<and>
   (\<forall>row\<in>set (raster_of (fst (create_image sz shape g))). length row = fst sz) \<and>
   (\<exists>c xy1 xy2 c1 c2 c3.
      img_drawn (fst (create_image sz shape g)) = [c] \<and>
      take 2 (cmd_points c) = [(xy1, xy1), (xy2, xy2)] \<and> cmd_fill c = (c1, c2, c3) \<and>
      10 \<le> xy1 \<and> xy1 \<le> 40 \<and> 60 \<le> xy2 \<and> xy2 \<le> 100 \<and>
      0 \<le> c1 \<and> c1 \<le> 200 \<and> 0 \<le> c2 \<and> c2 \<le> 200 \<and> 0 \<le> c3 \<and> c3 \<le> 200 \<and>
      (c1, c2, c3) \<noteq> (255, 255, 255) \<and>
      (\<forall>x y. int x < xy1 \<or> xy2 < int x \<or> int y < xy1 \<or> xy2 < int y \<longrightarrow>
         pixel (fst (create_image sz shape g)) (x, y) = Some (255, 255, 255)) \<and>
      (\<forall>x y. pixel (fst (create_image sz shape g)) (x, y)
         \<in> {None, Some (255, 255, 255), Some (c1, c2, c3)}) \<and>
      (\<exists>x y. x < fst sz \<and> y < snd sz \<and> xy1 \<le> int x \<and> int x \<le> xy2 \<and> xy1 \<le> int y \<and>
         int y \<le> xy2 \<and> pixel (fst (create_image sz shape g)) (x, y) = Some (c1, c2, c3))) \<and>
   (10 \<le> a \<and> a \<le> 40 \<and> 60 \<le> b \<and> b \<le> 100 \<and>
    0 \<le> r \<and> r \<le> 200 \<and> 0 \<le> s \<and> s \<le> 200 \<and> 0 \<le> t \<and> t \<le> 200 \<longrightarrow>
    (\<exists>!q. case q of (q1, q2, q3, q4, q5) \<Rightarrow>
      q1 < 31 \<and> q2 < 41 \<and> q3 < 201 \<and> q4 < 201 \<and> q5 < 201 \<and>
      (\<exists>c. img_drawn (fst (create_image sz shape (draws [q1, q2, q3, q4, q5]))) = [c] \<and>
         take 2 (cmd_points c) = [(a, a), (b, b)] \<and> cmd_fill c = (r, s, t))))"
proof (intro conjI impI)
  show "array_shape (fst (create_image sz shape g)) = (snd sz, fst sz, 3)"
    by (simp add: create_image_eq Let_def array_shape_def)
  show "length (raster_of (fst (create_image sz shape g))) = snd sz"
    by (simp add: raster_of_def create_image_eq Let_def)
  show "\<forall>row\<in>set (raster_of (fst (create_image sz shape g))). length row = fst sz"
    by (auto simp add: raster_of_def create_image_eq Let_def)
  obtain c xy1 xy2 c1 c2 c3 where h:
    "img_drawn (fst (create_image sz shape g)) = [c]"
    "take 2 (cmd_points c) = [(xy1, xy1), (xy2, xy2)]" "cmd_fill c = (c1, c2, c3)"
    "10 \<le> xy1" "xy1 \<le> 40" "60 \<le> xy2" "xy2 \<le> 100"
    "0 \<le> c1" "c1 \<le> 200" "0 \<le> c2" "c2 \<le> 200" "0 \<le> c3" "c3 \<le> 200"
    "\<forall>x y. int x < xy1 \<or> xy2 < int x \<or> int y < xy1 \<or> xy2 < int y \<longrightarrow>
        pixel (fst (create_image sz shape g)) (x, y) = Some (255, 255, 255)"
    "\<forall>x y. pixel (fst (create_image sz shape g)) (x, y)
        \<in> {None, Some (255, 255, 255), Some (c1, c2, c3)}"
    "\<exists>x y. x < fst sz \<and> y < snd sz \<and> xy1 \<le> int x \<and> int x \<le> xy2 \<and> xy1 \<le> int y \<and>
        int y \<le> xy2 \<and> pixel (fst (create_image sz shape g)) (x, y) = Some (c1, c2, c3)"
    using create_image_pixels [OF assms(1) assms(3), of shape g] by blast
  have ne: "(c1, c2, c3) \<noteq> (255, 255, 255)"
    using h(9) by auto
  show "\<exists>c xy1 xy2 c1 c2 c3.
      img_drawn (fst (create_image sz shape g)) = [c] \<and>
      take 2 (cmd_points c) = [(xy1, xy1), (xy2, xy2)] \<and> cmd_fill c = (c1, c2, c3) \<and>
      10 \<le> xy1 \<and> xy1 \<le> 40 \<and> 60 \<le> xy2 \<and> xy2 \<le> 100 \<and>
      0 \<le> c1 \<and> c1 \<le> 200 \<and> 0 \<le> c2 \<and> c2 \<le> 200 \<and> 0 \<le> c3 \<and> c3 \<le> 200 \<and>
      (c1, c2, c3) \<noteq> (255, 255, 255) \<and>
      (\<forall>x y. int x < xy1 \<or> xy2 < int x \<or> int y < xy1 \<or> xy2 < int y \<longrightarrow>
         pixel (fst (create_image sz shape g)) (x, y) = Some (255, 255, 255)) \<and>
      (\<forall>x y. pixel (fst (create_image sz shape g)) (x, y)
         \<in> {None, Some (255, 255, 255), Some (c1, c2, c3)}) \<and>
      (\<exists>x y. x < fst sz \<and> y < snd sz \<and> xy1 \<le> int x \<and> int x \<le> xy2 \<and> xy1 \<le> int y \<and>
         int y \<le> xy2 \<and> pixel (fst (create_image sz shape g)) (x, y) = Some (c1, c2, c3))"
    using h ne by blast
next
  assume "10 \<le> a \<and> a \<le> 40 \<and> 60 \<le> b \<and> b \<le> 100 \<and>
    0 \<le> r \<and> r \<le> 200 \<and> 0 \<le> s \<and> s \<le> 200 \<and> 0 \<le> t \<and> t \<le> 200"
  then show "\<exists>!q. case q of (q1, q2, q3, q4, q5) \<Rightarrow>
      q1 < 31 \<and> q2 < 41 \<and> q3 < 201 \<and> q4 < 201 \<and> q5 < 201 \<and>
      (\<exists>c. img_drawn (fst (create_image sz shape (draws [q1, q2, q3, q4, q5]))) = [c] \<and>
         take 2 (cmd_points c) = [(a, a), (b, b)] \<and> cmd_fill c = (r, s, t))"
    by (intro create_image_unique_draws) simp_all
qed

theorem create_image_contract_witness:
  "\<exists>!q. case q of (q1, q2, q3, q4, q5) \<Rightarrow>
      q1 < 31 \<and> q2 < 41 \<and> q3 < 201 \<and> q4 < 201 \<and> q5 < 201 \<and>
      (\<exists>c. img_drawn (fst (create_image (128, 128) ''circle'' (draws [q1, q2, q3, q4, q5]))) = [c] \<and>
         take 2 (cmd_points c) = [(25, 25), (80, 80)] \<and> cmd_fill c = (0, 100, 200))"
proof -
  have s1: "100 < fst (128 :: nat, 128 :: nat)" and s2: "fst (128 :: nat, 128 :: nat) \<le> 4096"
    and s3: "100 < snd (128 :: nat, 128 :: nat)" and s4: "snd (128 :: nat, 128 :: nat) \<le> 4096"
    by simp_all
  have h: "(10::int) \<le> 25 \<and> (25::int) \<le> 40 \<and> (60::int) \<le> 80 \<and> (80::int) \<le> 100 \<and>
    (0::int) \<le> 0 \<and> (0::int) \<le> 200 \<and> (0::int) \<le> 100 \<and> (100::int) \<le> 200 \<and>
    (0::int) \<le> 200 \<and> (200::int) \<le> 200"
    by simp
  show ?thesis
    by (rule create_image_contract [where sz = "(128, 128)" and shape = "''circle''"
          and g = "draws []" and a = 25 and b = 80 and r = 0 and s = 100 and t = 200,
          OF s1 s2 s3 s4, THEN conjunct2, THEN conjunct2, THEN conjunct2, THEN conjunct2,
          THEN mp, OF h])
qed

text \<open>
  On a raster of 5 by 3 pixels every pixel is white, whatever the label and the draws: the
  contract of claim C6 fails there, the raster shows no shape and no pixel has the fill
  colour (which is never white).
\<close>

theorem create_image_small_size_no_shape:
  "\<forall>shape g. raster_of (fst (create_image (5, 3) shape g))
      = replicate 3 (replicate 5 (Some (255, 255, 255))) \<and>
     cmd_fill (hd (img_drawn (fst (create_image (5, 3) shape g)))) \<noteq> (255, 255, 255)"
proof (intro allI conjI)
  fix shape g
  show "raster_of (fst (create_image (5, 3) shape g))
      = replicate 3 (replicate 5 (Some (255, 255, 255)))"
    by (rule create_image_small_raster)
  have "fst (randint 0 200 (\<lambda>k. g (Suc (Suc k)))) \<le> 200"
    by (rule randint_range) simp
  then show "cmd_fill (hd (img_drawn (fst (create_image (5, 3) shape g)))) \<noteq> (255, 255, 255)"
    by (auto simp add: create_image_eq Let_def cmd_fill_def)
qed



section \<open>Properties of \<open>PlaneDataSet\<close>\<close>

lemma randint_snd: "snd (randint a b g) = (\<lambda>k. g (Suc k))"
  by (simp add: randint_def)

text \<open>
  Claim C3. When the file name at \<open>index\<close> exists and its image and mask can be read,
  \<open>__getitem__\<close> returns a pair and makes exactly one random draw; on that draw either
  both the image and the mask are mirrored (the draw exceeds 1) or neither is.
\<close>

theorem getitem_coupled_flip:
  assumes "py_index (filenames self) index = Inr name"
    and "io_imread f (os_path_join (image_path self) name) = Inr image_gray"
    and "io_imread f (os_path_join (mask_path self) name) = Inr mask_gray"
  shows "\<exists>image_tensor mask_tensor.
    getitem convert_L f self index g = (Inr (image_tensor, mask_tensor), \<lambda>k. g (Suc k)) \<and>
    (1 < fst (randint 0 2 g) \<and>
       image_tensor = [map (map convert_L) (FLIP_LEFT_RIGHT (map (map (\<lambda>v. v / 255)) image_gray))] \<and>
       mask_tensor = [map (map convert_L) (FLIP_LEFT_RIGHT (map (map (\<lambda>v. v / 255)) mask_gray))]
     \<or>
     fst (randint 0 2 g) \<le> 1 \<and>
       image_tensor = [map (map (\<lambda>v. v / 255)) image_gray] \<and>
       mask_tensor = [map (map (\<lambda>v. v / 255)) mask_gray])"
proof (cases "1 < fst (randint 0 2 g)")
  case True
  then show ?thesis
    using assms by (simp add: getitem_def Let_def split_beta randint_snd)
next
  case False
  then show ?thesis
    using assms by (simp add: getitem_def Let_def split_beta randint_snd)
qed

theorem getitem_coupled_flip_witness:
  "\<exists>image_tensor mask_tensor.
    getitem id sample_fs sample_dataset 0 (draws [2])
      = (Inr (image_tensor, mask_tensor), \<lambda>k. draws [2] (Suc k)) \<and>
    (1 < fst (randint 0 2 (draws [2])) \<and>
       image_tensor = [map (map id) (FLIP_LEFT_RIGHT (map (map (\<lambda>v. v / 255)) [[0, 255]]))] \<and>
       mask_tensor = [map (map id) (FLIP_LEFT_RIGHT (map (map (\<lambda>v. v / 255)) [[255, 0]]))]
     \<or>
     fst (randint 0 2 (draws [2])) \<le> 1 \<and>
       image_tensor = [map (map (\<lambda>v. v / 255)) [[0, 255]]] \<and>
       mask_tensor = [map (map (\<lambda>v. v / 255)) [[255, 0]]])"
proof -
  have a: "py_index (filenames sample_dataset) 0 = Inr ''a.png''"
    by (simp add: py_index_def sample_dataset_def)
  have b: "io_imread sample_fs (os_path_join (image_path sample_dataset) ''a.png'') = Inr [[0, 255]]"
    by code_simp
  have c: "io_imread sample_fs (os_path_join (mask_path sample_dataset) ''a.png'') = Inr [[255, 0]]"
    by code_simp
  show ?thesis
    by (rule getitem_coupled_flip [OF a b c])
qed

text \<open>
  Claim C1 (the code departs from it). The draw is \<open>random.randint(0, 2)\<close>, which has the
  three equally likely values 0, 1 and 2, and the mirror is applied when \<open>rand > 1\<close>: on the
  sample dataset the draws 0 and 1 return the pair as stored and only the draw 2 returns
  it mirrored. The mirror is applied with probability 1/3, not 1/2.
\<close>

theorem getitem_flips_one_draw_in_three:
  "map (\<lambda>r. fst (randint 0 2 (draws [r]))) [0, 1, 2] = [0, 1, 2] \<and>
   map (\<lambda>r. fst (getitem id sample_fs sample_dataset 0 (draws [r]))) [0, 1, 2]
   = [Inr ([[[0, 1]]], [[[1, 0]]]), Inr ([[[0, 1]]], [[[1, 0]]]), Inr ([[[1, 0]]], [[[0, 1]]])]"
  by code_simp

lemma children_entries:
  "set (children f loc) = set (file_entries f loc) \<union> set (dir_entries f loc)"
  by (auto simp add: children_def file_entries_def dir_entries_def)

lemma children_no_folder:
  "dir_entries f loc = [] \<Longrightarrow> children f loc = file_entries f loc"
  by (simp add: children_def file_entries_def dir_entries_def)

text \<open>
  Claim C7 (amended). The length is the number of entries of the mask directory, and a
  folder in it is an entry like a file: a mask directory with two files and one folder
  gives a dataset of length 3 (see \<open>PlaneDataSet_len_counts_folders\<close>). When the path of the
  mask directory names a directory, building the dataset succeeds and its length is the
  number of the files and folders that lie directly in it; when no folder lies in it, that
  is the number of its files. The image directory plays no part.
\<close>

theorem PlaneDataSet_len_counts_mask_entries:
  assumes "resolve f mask_path' = Inr loc" and "is_dir f loc"
  shows "\<exists>self. PlaneDataSet_init f image_path' mask_path' = Inr self \<and>
     PlaneDataSet_len self = length (children f loc) \<and>
     distinct (children f loc) \<and>
     set (children f loc) = set (file_entries f loc) \<union> set (dir_entries f loc) \<and>
     (dir_entries f loc = [] \<longrightarrow> PlaneDataSet_len self = length (file_entries f loc))"
  using assms
  by (simp add: PlaneDataSet_init_def PlaneDataSet_len_def os_listdir_def children_entries
      children_no_folder) (simp add: children_def)

theorem PlaneDataSet_len_counts_mask_entries_witness:
  "\<exists>self. PlaneDataSet_init sample_fs ''d/image'' ''d/mask'' = Inr self \<and>
     PlaneDataSet_len self = length (children sample_fs [''d'', ''mask'']) \<and>
     distinct (children sample_fs [''d'', ''mask'']) \<and>
     set (children sample_fs [''d'', ''mask''])
       = set (file_entries sample_fs [''d'', ''mask'']) \<union> set (dir_entries sample_fs [''d'', ''mask'']) \<and>
     (dir_entries sample_fs [''d'', ''mask''] = [] \<longrightarrow>
        PlaneDataSet_len self = length (file_entries sample_fs [''d'', ''mask'']))"
proof -
  have a: "resolve sample_fs ''d/mask'' = Inr [''d'', ''mask'']"
    by code_simp
  have b: "is_dir sample_fs [''d'', ''mask'']"
    by code_simp
  show ?thesis
    by (rule PlaneDataSet_len_counts_mask_entries [OF a b])
qed

text \<open>
  The mask directory of \<open>masks_with_folder\<close> holds the two files \<open>a.png\<close> and \<open>b.png\<close> and
  the folder \<open>old\<close>, the image directory the same two file names: the dataset has length
  3, not 2.
\<close>

theorem PlaneDataSet_len_counts_folders:
  "map_sum id PlaneDataSet_len (PlaneDataSet_init masks_with_folder ''d/image'' ''d/mask'') = Inr 3 \<and>
   map_sum id filenames (PlaneDataSet_init masks_with_folder ''d/image'' ''d/mask'')
     = Inr [''old'', ''a.png'', ''b.png''] \<and>
   file_entries masks_with_folder [''d'', ''mask'']
     = [[''d'', ''mask'', ''a.png''], [''d'', ''mask'', ''b.png'']] \<and>
   file_entries masks_with_folder [''d'', ''image'']
     = [[''d'', ''image'', ''a.png''], [''d'', ''image'', ''b.png'']]"
  by code_simp

section \<open>Properties of \<open>predict_image\<close>\<close>

lemma argmax_from_cases:
  "(argmax_from best bi k xs = bi \<and> (\<forall>x\<in>set xs. x \<le> best)) \<or>
   (\<exists>j<length xs. argmax_from best bi k xs = k + j \<and> best < xs ! j \<and>
      (\<forall>x\<in>set xs. x \<le> xs ! j) \<and> (\<forall>i<j. xs ! i < xs ! j))"
proof (induction xs arbitrary: best bi k)
  case Nil
  then show ?case by simp
next
  case (Cons x xs)
  show ?case
  proof (cases "best < x")
    case True
    from Cons.IH [of x k "Suc k"] show ?thesis
    proof
      assume "argmax_from x k (Suc k) xs = k \<and> (\<forall>y\<in>set xs. y \<le> x)"
      then have "0 < length (x # xs) \<and> argmax_from best bi k (x # xs) = k + 0 \<and>
          best < (x # xs) ! 0 \<and> (\<forall>y\<in>set (x # xs). y \<le> (x # xs) ! 0) \<and>
          (\<forall>i<0. (x # xs) ! i < (x # xs) ! 0)"
        using True by simp
      then show ?thesis by blast
    next
      assume "\<exists>j<length xs. argmax_from x k (Suc k) xs = Suc k + j \<and> x < xs ! j \<and>
          (\<forall>y\<in>set xs. y \<le> xs ! j) \<and> (\<forall>i<j. xs ! i < xs ! j)"
      then obtain j where j: "j < length xs" "argmax_from x k (Suc k) xs = Suc k + j"
        "x < xs ! j" "\<forall>y\<in>set xs. y \<le> xs ! j" "\<forall>i<j. xs ! i < xs ! j"
        by blast
      have "Suc j < length (x # xs) \<and> argmax_from best bi k (x # xs) = k + Suc j \<and>
          best < (x # xs) ! Suc j \<and> (\<forall>y\<in>set (x # xs). y \<le> (x # xs) ! Suc j) \<and>
          (\<forall>i<Suc j. (x # xs) ! i < (x # xs) ! Suc j)"
        using True j by (auto simp: nth_Cons' less_Suc_eq_0_disj)
      then show ?thesis by blast
    qed
  next
    case False
    from Cons.IH [of best bi "Suc k"] show ?thesis
    proof
      assume "argmax_from best bi (Suc k) xs = bi \<and> (\<forall>y\<in>set xs. y \<le> best)"
      then show ?thesis using False by simp
    next
      assume "\<exists>j<length xs. argmax_from best bi (Suc k) xs = Suc k + j \<and> best < xs ! j \<and>
          (\<forall>y\<in>set xs. y \<le> xs ! j) \<and> (\<forall>i<j. xs ! i < xs ! j)"
      then obtain j where j: "j < length xs" "argmax_from best bi (Suc k) xs = Suc k + j"
        "best < xs ! j" "\<forall>y\<in>set xs. y \<le> xs ! j" "\<forall>i<j. xs ! i < xs ! j"
        by blast
      have "Suc j < length (x # xs) \<and> argmax_from best bi k (x # xs) = k + Suc j \<and>
          best < (x # xs) ! Suc j \<and> (\<forall>y\<in>set (x # xs). y \<le> (x # xs) ! Suc j) \<and>
          (\<forall>i<Suc j. (x # xs) ! i < (x # xs) ! Suc j)"
        using False j by (auto simp: nth_Cons' less_Suc_eq_0_disj)
      then show ?thesis by blast
    qed
  qed
qed

lemma np_argmax_first_max:
  assumes "p \<noteq> []"
  shows "\<exists>j<length p. np_argmax p = Inr j \<and> (\<forall>y\<in>set p. y \<le> p ! j) \<and> (\<forall>i<j. p ! i < p ! j)"
proof -
  obtain x rest where p: "p = x # rest" using assms by (cases p) auto
  from argmax_from_cases [of x 0 1 rest] show ?thesis
  proof
    assume "argmax_from x 0 1 rest = 0 \<and> (\<forall>y\<in>set rest. y \<le> x)"
    then have "0 < length p \<and> np_argmax p = Inr 0 \<and> (\<forall>y\<in>set p. y \<le> p ! 0) \<and> (\<forall>i<0. p ! i < p ! 0)"
      by (simp add: p np_argmax_def)
    then show ?thesis by blast
  next
    assume "\<exists>j<length rest. argmax_from x 0 1 rest = 1 + j \<and> x < rest ! j \<and>
        (\<forall>y\<in>set rest. y \<le> rest ! j) \<and> (\<forall>i<j. rest ! i < rest ! j)"
    then obtain j where j: "j < length rest" "argmax_from x 0 1 rest = 1 + j" "x < rest ! j"
      "\<forall>y\<in>set rest. y \<le> rest ! j" "\<forall>i<j. rest ! i < rest ! j"
      by blast
    have "Suc j < length p \<and> np_argmax p = Inr (Suc j) \<and> (\<forall>y\<in>set p. y \<le> p ! Suc j) \<and>
        (\<forall>i<Suc j. p ! i < p ! Suc j)"
      using j by (auto simp: p np_argmax_def nth_Cons' less_Suc_eq_0_disj)
    then show ?thesis by blast
  qed
qed

lemma np_argmax_Max:
  assumes "p \<noteq> []"
  shows "\<exists>j<length p. np_argmax p = Inr j \<and> p ! j = Max (set p) \<and> (\<forall>i<j. p ! i < p ! j)"
proof -
  obtain j where j: "j < length p" "np_argmax p = Inr j" "\<forall>y\<in>set p. y \<le> p ! j"
    "\<forall>i<j. p ! i < p ! j"
    using np_argmax_first_max [OF assms] by blast
  have "Max (set p) = p ! j"
    using j by (intro Max_eqI) auto
  then show ?thesis using j by auto
qed

lemma for_prediction_labels:
  assumes "\<forall>p\<in>set preds. p \<noteq> [] \<and> length p \<le> length classnames"
  shows "\<exists>labels. for_prediction preds acc = Inr (acc @ labels) \<and> length labels = length preds \<and>
     (\<forall>k<length preds. \<exists>j<length (preds ! k). labels ! k = classnames ! j \<and>
        preds ! k ! j = Max (set (preds ! k)) \<and> (\<forall>i<j. preds ! k ! i < preds ! k ! j))"
  using assms
proof (induction preds arbitrary: acc)
  case Nil
  then show ?case by simp
next
  case (Cons p preds)
  then have p: "p \<noteq> []" "length p \<le> length classnames" by auto
  obtain j where j: "j < length p" "np_argmax p = Inr j" "p ! j = Max (set p)"
    "\<forall>i<j. p ! i < p ! j"
    using np_argmax_Max [OF p(1)] by blast
  have idx: "py_index classnames (int j) = Inr (classnames ! j)"
    using j(1) p(2) by (simp add: py_index_def)
  from Cons have "\<forall>q\<in>set preds. q \<noteq> [] \<and> length q \<le> length classnames" by simp
  from Cons.IH [OF this, of "acc @ [classnames ! j]"]
  obtain labels where l: "for_prediction preds (acc @ [classnames ! j]) = Inr ((acc @ [classnames ! j]) @ labels)"
    "length labels = length preds"
    "\<forall>k<length preds. \<exists>j<length (preds ! k). labels ! k = classnames ! j \<and>
        preds ! k ! j = Max (set (preds ! k)) \<and> (\<forall>i<j. preds ! k ! i < preds ! k ! j)"
    by blast
  have 1: "for_prediction (p # preds) acc = Inr (acc @ (classnames ! j # labels))"
    using j(2) idx l(1) by simp
  have 2: "length (classnames ! j # labels) = length (p # preds)"
    using l(2) by simp
  have 3: "\<exists>j'<length ((p # preds) ! k). (classnames ! j # labels) ! k = classnames ! j' \<and>
        (p # preds) ! k ! j' = Max (set ((p # preds) ! k)) \<and>
        (\<forall>i<j'. (p # preds) ! k ! i < (p # preds) ! k ! j')" if "k < length (p # preds)" for k
  proof (cases k)
    case 0
    then show ?thesis using j by auto
  next
    case (Suc k')
    then show ?thesis using l(3) that by simp
  qed
  show ?case using 1 2 3 by blast
qed


text \<open>
  Claim C8. When the classifier returns one probability vector per image, each non-empty
  and of at most three entries, \<open>predict_image\<close> returns one label per image, and the
  label of image \<open>k\<close> is the entry of the list \<open>['circle', 'square', 'triangle']\<close> at an
  index \<open>j\<close> where the \<open>k\<close>-th vector takes its maximum (the first such index).
\<close>

theorem predict_image_labels:
  assumes "length (classifier (map (map (\<lambda>v. v / 255)) image_array)) = length image_array"
    and "\<forall>p\<in>set (classifier (map (map (\<lambda>v. v / 255)) image_array)).
           p \<noteq> [] \<and> length p \<le> 3"
  shows "\<exists>labels. predict_image classifier image_array = Inr labels \<and>
     length labels = length image_array \<and>
     (\<forall>k<length image_array.
        \<exists>j<length (classifier (map (map (\<lambda>v. v / 255)) image_array) ! k).
          labels ! k = [''circle'', ''square'', ''triangle''] ! j \<and>
          classifier (map (map (\<lambda>v. v / 255)) image_array) ! k ! j
            = Max (set (classifier (map (map (\<lambda>v. v / 255)) image_array) ! k)) \<and>
          (\<forall>i<j. classifier (map (map (\<lambda>v. v / 255)) image_array) ! k ! i
                 < classifier (map (map (\<lambda>v. v / 255)) image_array) ! k ! j))"
proof -
  have "\<forall>p\<in>set (classifier (map (map (\<lambda>v. v / 255)) image_array)).
           p \<noteq> [] \<and> length p \<le> length classnames"
    using assms(2) by (auto simp add: classnames_def)
  from for_prediction_labels [OF this, of "[]"] assms(1) show ?thesis
    by (simp add: predict_image_def classnames_def)
qed

theorem predict_image_labels_witness:
  "\<exists>labels. predict_image (map (\<lambda>x. [1 / 10, 7 / 10, 2 / 10])) [[0, 255], [128, 64]] = Inr labels \<and>
     length labels = length [[0, 255], [128, 64 :: rat]] \<and>
     (\<forall>k<length [[0, 255], [128, 64 :: rat]].
        \<exists>j<length (map (\<lambda>x. [1 / 10, 7 / 10, 2 / 10 :: rat]) (map (map (\<lambda>v. v / 255)) [[0, 255], [128, 64 :: rat]]) ! k).
          labels ! k = [''circle'', ''square'', ''triangle''] ! j \<and>
          map (\<lambda>x. [1 / 10, 7 / 10, 2 / 10 :: rat]) (map (map (\<lambda>v. v / 255)) [[0, 255], [128, 64 :: rat]]) ! k ! j
            = Max (set (map (\<lambda>x. [1 / 10, 7 / 10, 2 / 10]) (map (map (\<lambda>v. v / 255)) [[0, 255], [128, 64 :: rat]]) ! k)) \<and>
          (\<forall>i<j. map (\<lambda>x. [1 / 10, 7 / 10, 2 / 10 :: rat]) (map (map (\<lambda>v. v / 255)) [[0, 255], [128, 64 :: rat]]) ! k ! i
                 < map (\<lambda>x. [1 / 10, 7 / 10, 2 / 10]) (map (map (\<lambda>v. v / 255)) [[0, 255], [128, 64 :: rat]]) ! k ! j))"
proof -
  have h1: "length (map (\<lambda>x. [1 / 10, 7 / 10, 2 / 10 :: rat]) (map (map (\<lambda>v. v / 255)) [[0, 255], [128, 64 :: rat]]))
      = length [[0, 255], [128, 64 :: rat]]"
    by simp
  have h2: "\<forall>p\<in>set (map (\<lambda>x. [1 / 10, 7 / 10, 2 / 10 :: rat]) (map (map (\<lambda>v. v / 255)) [[0, 255], [128, 64 :: rat]])).
      p \<noteq> [] \<and> length p \<le> 3"
    by simp
  show ?thesis
    by (rule predict_image_labels [of "map (\<lambda>x. [1 / 10, 7 / 10, 2 / 10])" "[[0, 255], [128, 64]]",
          OF h1 h2])
qed

section \<open>Properties of \<open>train\<close>\<close>

lemma for_batch_total:
  "fst (for_batch step bs model acc) = acc + sum_list (batch_losses step bs model)"
  by (induction bs arbitrary: model acc) (simp_all add: split_beta)

lemma train_divides_by_dataset_size:
  "dataset dl \<noteq> [] \<Longrightarrow>
   fst (train step model dl) =
     Inr (sum_list (batch_losses step (batches (batch_size dl) (dataset dl)) model)
          / rat_of_nat (length (dataset dl)))"
  using for_batch_total [of step "batches (batch_size dl) (dataset dl)" model 0]
  by (simp add: train_def split_beta)

text \<open>
  Claim C9 (the code departs from it). \<open>train\<close> adds one loss value per batch to the running
  total and divides the total by the number of samples of the dataset, not by the number
  of values added. With four samples in batches of two and a loss of 1/2 on each batch,
  the total is 1, the mean of the two loss values is 1/2, and \<open>train\<close> reports 1/4.
\<close>

theorem train_reports_total_over_samples:
  "fst (train (\<lambda>m b. (1 / 2, m)) () \<lparr>dataset = [0, 1, 2, 3 :: nat], batch_size = 2\<rparr>) = Inr (1 / 4)
   \<and> batch_losses (\<lambda>m b. (1 / 2, m)) (batches 2 [0, 1, 2, 3 :: nat]) () = [1 / 2, 1 / 2]
   \<and> mean [1 / 2, 1 / 2] = 1 / 2"
  by code_simp

section \<open>Properties of \<open>generate_image_data\<close>\<close>

text \<open>
  Claim C4. When the output folder exists and the line read at the prompt is anything but
  \<open>Y\<close>, \<open>generate_image_data\<close> returns normally, the file system is the one it started
  with, and no save was attempted.
\<close>

theorem generate_image_data_declined:
  assumes "os_path_exists (fs w) img_dir" and "stdin w = answer # rest" and "answer \<noteq> ''Y''"
  shows "fst (generate_image_data classes sz cases img_dir w) = Inr () \<and>
     fs (snd (generate_image_data classes sz cases img_dir w)) = fs w \<and>
     saves (snd (generate_image_data classes sz cases img_dir w)) = saves w \<and>
     stdin (snd (generate_image_data classes sz cases img_dir w)) = rest"
  using assms by (simp add: generate_image_data_def py_input_def py_print_def)

theorem generate_image_data_declined_witness:
  "fst (generate_image_data [''circle'', ''square'', ''triangle''] (128, 128) 30 ''shapes'' sample_world)
     = Inr () \<and>
   fs (snd (generate_image_data [''circle'', ''square'', ''triangle''] (128, 128) 30 ''shapes'' sample_world))
     = fs sample_world \<and>
   saves (snd (generate_image_data [''circle'', ''square'', ''triangle''] (128, 128) 30 ''shapes'' sample_world))
     = saves sample_world \<and>
   stdin (snd (generate_image_data [''circle'', ''square'', ''triangle''] (128, 128) 30 ''shapes'' sample_world))
     = []"
proof -
  have a: "os_path_exists (fs sample_world) ''shapes''"
    by code_simp
  have b: "stdin sample_world = ''y'' # []"
    by (simp add: sample_world_def)
  have c: "''y'' \<noteq> ''Y''"
    by simp
  show ?thesis
    by (rule generate_image_data_declined [OF a b c])
qed

subsection \<open>Decimal numerals\<close>

lemma digit_char_in: "d < 10 \<Longrightarrow> digit_char d \<in> set ''0123456789''"
  unfolding digit_char_def by (rule nth_mem) simp

lemma digit_char_inj:
  assumes "d < 10" "e < 10" "digit_char d = digit_char e"
  shows "d = e"
proof -
  have "distinct ''0123456789''" by simp
  moreover have "d < length ''0123456789''" "e < length ''0123456789''" using assms by simp_all
  ultimately show ?thesis
    using assms(3) unfolding digit_char_def by (simp only: nth_eq_iff_index_eq)
qed

lemma str_nat_chars: "set (str_nat n) \<subseteq> set ''0123456789''"
proof (induction n rule: str_nat.induct)
  case (1 n)
  show ?case
  proof (cases "n < 10")
    case True
    then show ?thesis using digit_char_in [of n] by (subst str_nat.simps) simp
  next
    case False
    have "n mod 10 < 10" by simp
    then have "digit_char (n mod 10) \<in> set ''0123456789''" by (rule digit_char_in)
    then show ?thesis using False 1 by (subst str_nat.simps) simp
  qed
qed

lemma str_nat_nonempty: "str_nat n \<noteq> []"
  by (subst str_nat.simps) simp

lemma str_nat_inj: "str_nat n = str_nat m \<Longrightarrow> n = m"
proof (induction n arbitrary: m rule: str_nat.induct)
  case (1 n)
  show ?case
  proof (cases "n < 10")
    case n: True
    show ?thesis
    proof (cases "m < 10")
      case True
      have "str_nat n = [digit_char n]" "str_nat m = [digit_char m]"
        using n True by (simp_all add: str_nat.simps)
      then show ?thesis using "1.prems" n True digit_char_inj by simp
    next
      case False
      have "str_nat n = [digit_char n]" using n by (simp add: str_nat.simps)
      moreover have "str_nat m = str_nat (m div 10) @ [digit_char (m mod 10)]"
        using False by (subst str_nat.simps) simp
      ultimately have "str_nat (m div 10) = []" using "1.prems" by simp
      then show ?thesis using str_nat_nonempty by blast
    qed
  next
    case n: False
    have sn: "str_nat n = str_nat (n div 10) @ [digit_char (n mod 10)]"
      using n by (subst str_nat.simps) simp
    show ?thesis
    proof (cases "m < 10")
      case True
      have "str_nat m = [digit_char m]" using True by (simp add: str_nat.simps)
      then have "str_nat (n div 10) = []" using "1.prems" sn by simp
      then show ?thesis using str_nat_nonempty by blast
    next
      case False
      have sm: "str_nat m = str_nat (m div 10) @ [digit_char (m mod 10)]"
        using False by (subst str_nat.simps) simp
      from "1.prems" sn sm have a: "str_nat (n div 10) = str_nat (m div 10)"
        and b: "digit_char (n mod 10) = digit_char (m mod 10)" by simp_all
      from "1.IH" [OF n a] have c: "n div 10 = m div 10" .
      have d: "n mod 10 = m mod 10" using b by (intro digit_char_inj) simp_all
      have "n = 10 * (n div 10) + n mod 10" by simp
      also have "\<dots> = 10 * (m div 10) + m mod 10" using c d by simp
      also have "\<dots> = m" by simp
      finally show ?thesis .
    qed
  qed
qed

lemma str_no_sep: "CHR ''/'' \<notin> set (str i)"
  using str_nat_chars [of "nat i"] str_nat_chars [of "nat (- i)"]
  by (auto simp: str_def)

lemma str_inj_nonneg: "0 \<le> i \<Longrightarrow> 0 \<le> j \<Longrightarrow> str i = str j \<Longrightarrow> i = j"
  using str_nat_inj [of "nat i" "nat j"] by (simp add: str_def)

subsection \<open>Failing saves\<close>


lemma write_file_cwd: "cwd (write_file p x f) = cwd f"
  by (simp add: write_file_def split: sum.splits)








end
